theory Spec2Isabelle
  imports Main "HOL-Library.Word"
begin

section \<open>norfilenames: the filename substitution\<close>

text \<open>
  The command walks a directory and, for every entry that is not a directory, computes
  \<^verbatim>\<open>re.ReplaceAllString(oldName, "_")\<close> with the character class
  \<^verbatim>\<open>[\x00-\x2C\x2F\x3A-\x40\x5B-\x5E\x60\x7B-\x7F]\<close>.
  A Go string is a byte sequence; the class holds ASCII code points only, so no byte of a
  multi-byte UTF-8 sequence (all of them are at least 0x80) and no invalid byte matches it.
  Every match is one byte long and is replaced by the one byte \<open>_\<close>: the substitution is a
  bytewise map. A \<open>char\<close> of HOL is such a byte.
\<close>

definition special_char :: "char \<Rightarrow> bool" where
  "special_char c =
     (let n = (of_char c :: nat) in
        n \<le> 0x2C \<or> n = 0x2F \<or> (0x3A \<le> n \<and> n \<le> 0x40) \<or> (0x5B \<le> n \<and> n \<le> 0x5E)
        \<or> n = 0x60 \<or> (0x7B \<le> n \<and> n \<le> 0x7F))"

definition normalize_name :: "string \<Rightarrow> string" where
  "normalize_name oldName = map (\<lambda>c. if special_char c then CHR ''_'' else c) oldName"

text \<open>
  The characters that the comment in the source keeps, \<^verbatim>\<open>[-_.a-zA-Z0-9]\<close>: written from its
  words, to be compared with the character class.
\<close>

definition plain_char :: "char \<Rightarrow> bool" where
  "plain_char c =
     (c = CHR ''-'' \<or> c = CHR ''_'' \<or> c = CHR ''.''
      \<or> (97 \<le> (of_char c :: nat) \<and> (of_char c :: nat) \<le> 122)
      \<or> (65 \<le> (of_char c :: nat) \<and> (of_char c :: nat) \<le> 90)
      \<or> (48 \<le> (of_char c :: nat) \<and> (of_char c :: nat) \<le> 57))"

text \<open>One entry handed to the callback of \<^verbatim>\<open>filepath.Walk\<close>.\<close>

record walk_entry =
  entry_dir :: string
  entry_name :: string
  entry_is_dir :: bool

record renamePair =
  oldDir :: string
  oldName :: string
  newName :: string

text \<open>The list \<^verbatim>\<open>pendingRenames\<close> that the walk accumulates, in walk order.\<close>

fun pendingRenames :: "walk_entry list \<Rightarrow> renamePair list" where
  "pendingRenames [] = []"
| "pendingRenames (e # es) =
     (if \<not> entry_is_dir e \<and> entry_name e \<noteq> normalize_name (entry_name e)
      then \<lparr>oldDir = entry_dir e, oldName = entry_name e,
            newName = normalize_name (entry_name e)\<rparr> # pendingRenames es
      else pendingRenames es)"

text \<open>
  The state of the directory after every pending rename has been carried out: each file
  bears its normalized name.
\<close>

definition renamed :: "walk_entry list \<Rightarrow> walk_entry list" where
  "renamed es =
     map (\<lambda>e. if entry_is_dir e then e else e\<lparr>entry_name := normalize_name (entry_name e)\<rparr>) es"

section \<open>stt: the backoff policy\<close>

text \<open>
  \<^verbatim>\<open>time.Duration\<close> is a signed 64-bit count of nanoseconds: arithmetic wraps around and
  comparisons are signed.
\<close>

type_synonym duration = "64 word"

definition Millisecond :: duration where
  "Millisecond = 1000000"

definition Second :: duration where
  "Second = 1000 * Millisecond"

definition baseBackoff :: duration where
  "baseBackoff = 6 * Second"

definition maxBackoff :: duration where
  "maxBackoff = 60 * Second"

text \<open>\<^verbatim>\<open>maxRetries = 4\<close> of the stt command: 4 retries, 5 attempts in all.\<close>

definition maxRetries :: nat where
  "maxRetries = 4"

text \<open>Go's \<^verbatim>\<open>x << n\<close> on a 64-bit operand, for a shift count that is not negative.\<close>

definition shift_left :: "duration \<Rightarrow> nat \<Rightarrow> duration" where
  "shift_left x n = push_bit n x"

text \<open>
  \<^verbatim>\<open>calculateBackoff(attempt int)\<close>. In \<^verbatim>\<open>baseBackoff * (1 << attempt)\<close> the constant 1 takes
  the type of the other operand, \<^verbatim>\<open>time.Duration\<close>, so the shift and the product are 64-bit.
  A negative shift count panics: the result is \<open>None\<close>. The value drawn by
  \<^verbatim>\<open>rand.Intn(1000)\<close> is the second argument; \<^verbatim>\<open>Intn\<close> returns a number below 1000, which
  the model enforces by reducing the draw modulo 1000.
\<close>

definition calculateBackoff :: "int \<Rightarrow> nat \<Rightarrow> duration option" where
  "calculateBackoff attempt r =
     (if attempt < 0 then None
      else
        let backoff = baseBackoff * shift_left 1 (nat attempt);
            backoff = (if maxBackoff <s backoff then maxBackoff else backoff);
            jitter = word_of_nat (r mod 1000) * Millisecond
        in Some (backoff + jitter))"

text \<open>
  The interval of the specification for attempt \<open>a\<close>, in nanoseconds, with \<open>B\<close> the base
  delay, \<open>M\<close> the cap and \<open>J\<close> the jitter bound: from \<open>min (B * 2 ^ a) M\<close> to
  \<open>min (B * 2 ^ a) M + J\<close>. The delay is read as the signed number it is in Go.
\<close>

definition capped :: "nat \<Rightarrow> int" where
  "capped a = min (sint baseBackoff * 2 ^ a) (sint maxBackoff)"

definition in_backoff_interval :: "nat \<Rightarrow> duration \<Rightarrow> bool" where
  "in_backoff_interval a d = (capped a \<le> sint d \<and> sint d \<le> capped a + sint Second)"

section \<open>The remote API as the clients see it\<close>

text \<open>
  The fields of the response structs that the commands read. \<^verbatim>\<open>Part.Text\<close> is the empty
  string when the JSON has no text. The struct of the stt command has
  \<^verbatim>\<open>PromptFeedback *PromptFeedback\<close>; the struct of the caption command has
  \<^verbatim>\<open>Candidates\<close> only, so its decoder drops the prompt feedback.
\<close>

record part =
  Text :: string

record content =
  Parts :: "part list"

record candidate =
  Content :: content

record prompt_feedback =
  BlockReason :: string

record gemini_response =
  Candidates :: "candidate list"
  PromptFeedback :: "prompt_feedback option"

text \<open>
  A response body, by what the client's reader and JSON decoder make of it: reading fails,
  the decoder returns an error, or the decoder fills the struct. The string is the raw
  text, which the stt command puts into its error messages.
\<close>

datatype body = Unreadable string | Malformed string | Json string gemini_response

fun raw_body :: "body \<Rightarrow> string" where
  "raw_body (Unreadable raw) = raw"
| "raw_body (Malformed raw) = raw"
| "raw_body (Json raw apiResp) = raw"

record http_response =
  StatusCode :: int
  Body :: body

text \<open>What \<^verbatim>\<open>client.Do(req)\<close> returns: an error and no response, or a response.\<close>

datatype outcome = NetworkError string | Response http_response

text \<open>A path is a directory and a file name in it, as \<^verbatim>\<open>filepath.Join(dir, name)\<close> builds it.\<close>

type_synonym path = "string \<times> string"

text \<open>
  How \<^verbatim>\<open>os.WriteFile\<close> ends: the data is written; the file cannot be opened, and the
  disk stays as it was; or a later system call fails, and the file is left with part of
  the data.
\<close>

datatype write_outcome = Written | OpenFailed | PartlyWritten string

text \<open>
  What a run is given and cannot change: the injected transport, as the outcome of the
  n-th call of \<^verbatim>\<open>client.Do\<close>; the n-th draw of \<^verbatim>\<open>rand.Intn(1000)\<close>; whether
  \<^verbatim>\<open>http.NewRequest\<close> accepts the URL built from the model name and the key; the files
  that \<^verbatim>\<open>os.ReadFile\<close> cannot read; and how \<^verbatim>\<open>os.WriteFile\<close> ends for a path and its data.
\<close>

record env =
  transport :: "nat \<Rightarrow> outcome"
  randIntn :: "nat \<Rightarrow> nat"
  url_ok :: bool
  unreadable :: "path set"
  write_result :: "path \<Rightarrow> string \<Rightarrow> write_outcome"

text \<open>
  What a run changes: the number of HTTP calls made, the number of random draws, the
  durations slept in order, and the files on disk with their contents.
\<close>

record world =
  calls :: nat
  draws :: nat
  slept :: "duration list"
  files :: "path \<rightharpoonup> string"

definition sleep :: "duration \<Rightarrow> world \<Rightarrow> world" where
  "sleep d w = w\<lparr>slept := slept w @ [d]\<rparr>"

definition called :: "world \<Rightarrow> world" where
  "called w = w\<lparr>calls := Suc (calls w)\<rparr>"

text \<open>\<^verbatim>\<open>os.WriteFile\<close>: whether it returned no error, and the world it leaves.\<close>

definition WriteFile :: "env \<Rightarrow> path \<Rightarrow> string \<Rightarrow> world \<Rightarrow> bool \<times> world" where
  "WriteFile env name data w =
     (case write_result env name data of
        Written \<Rightarrow> (True, w\<lparr>files := (files w)(name \<mapsto> data)\<rparr>)
      | OpenFailed \<Rightarrow> (False, w)
      | PartlyWritten part \<Rightarrow> (False, w\<lparr>files := (files w)(name \<mapsto> part)\<rparr>))"

section \<open>stt: getTranscript\<close>

text \<open>One constructor for each error that \<^verbatim>\<open>getTranscript\<close> builds.\<close>

datatype stt_error =
    CreateRequestFailed
  | RequestFailed string
  | RetryableStatus int string
  | ReadBodyFailed
  | UnmarshalFailed
  | Blocked string
  | NoTranscript string
  | NonRetryableStatus int string
  | ShiftPanic
  | AllRetriesFailed nat "stt_error option"

text \<open>One call of \<^verbatim>\<open>calculateBackoff(attempt)\<close>: it takes the next random draw.\<close>

definition draw_backoff :: "env \<Rightarrow> nat \<Rightarrow> world \<Rightarrow> duration option \<times> world" where
  "draw_backoff env attempt w =
     (calculateBackoff (int attempt) (randIntn env (draws w)), w\<lparr>draws := Suc (draws w)\<rparr>)"

text \<open>The branch \<^verbatim>\<open>case http.StatusOK\<close>: every path through it returns.\<close>

definition extract_transcript :: "string \<Rightarrow> gemini_response \<Rightarrow> stt_error + string" where
  "extract_transcript raw apiResp =
     (case Candidates apiResp of
        [] \<Rightarrow> Inl (NoTranscript raw)
      | c # _ \<Rightarrow>
          (case Parts (Content c) of
             [] \<Rightarrow> Inl (NoTranscript raw)
           | p # _ \<Rightarrow> Inr (Text p)))"

definition status_ok :: "body \<Rightarrow> stt_error + string" where
  "status_ok b =
     (case b of
        Unreadable raw \<Rightarrow> Inl ReadBodyFailed
      | Malformed raw \<Rightarrow> Inl UnmarshalFailed
      | Json raw apiResp \<Rightarrow>
          (case PromptFeedback apiResp of
             None \<Rightarrow> extract_transcript raw apiResp
           | Some pf \<Rightarrow>
               if BlockReason pf \<noteq> [] then Inl (Blocked (BlockReason pf))
               else extract_transcript raw apiResp))"

text \<open>
  The statuses of the second \<^verbatim>\<open>case\<close>: \<^verbatim>\<open>StatusTooManyRequests\<close>,
  \<^verbatim>\<open>StatusInternalServerError\<close>, \<^verbatim>\<open>StatusBadGateway\<close>, \<^verbatim>\<open>StatusServiceUnavailable\<close>,
  \<^verbatim>\<open>StatusGatewayTimeout\<close>.
\<close>

definition retryable_status :: "int \<Rightarrow> bool" where
  "retryable_status s = (s = 429 \<or> s = 500 \<or> s = 502 \<or> s = 503 \<or> s = 504)"

text \<open>
  The retry loop, from \<^verbatim>\<open>attempt\<close> on, with \<^verbatim>\<open>lastErr\<close>. In the branch of the retryable
  statuses \<^verbatim>\<open>calculateBackoff(attempt)\<close> is called twice, once for the log line and once for
  the sleep, so two draws are taken. \<^verbatim>\<open>json.Marshal\<close> of the request struct, which holds
  strings only, cannot fail and is left out.
\<close>

function getTranscript_loop ::
  "env \<Rightarrow> nat \<Rightarrow> stt_error option \<Rightarrow> world \<Rightarrow> (stt_error + string) \<times> world" where
  "getTranscript_loop env attempt lastErr w =
     (if attempt \<le> maxRetries then
        if \<not> url_ok env then (Inl CreateRequestFailed, w)
        else
          (case transport env (calls w) of
             NetworkError e \<Rightarrow>
               (case draw_backoff env attempt (called w) of
                  (None, w1) \<Rightarrow> (Inl ShiftPanic, w1)
                | (Some d, w1) \<Rightarrow>
                    getTranscript_loop env (Suc attempt) (Some (RequestFailed e)) (sleep d w1))
           | Response resp \<Rightarrow>
               if StatusCode resp = 200 then (status_ok (Body resp), called w)
               else if retryable_status (StatusCode resp) then
                 (case draw_backoff env attempt (called w) of
                    (None, w1) \<Rightarrow> (Inl ShiftPanic, w1)
                  | (Some logged, w1) \<Rightarrow>
                      (case draw_backoff env attempt w1 of
                         (None, w2) \<Rightarrow> (Inl ShiftPanic, w2)
                       | (Some d, w2) \<Rightarrow>
                           getTranscript_loop env (Suc attempt)
                             (Some (RetryableStatus (StatusCode resp) (raw_body (Body resp))))
                             (sleep d w2)))
               else (Inl (NonRetryableStatus (StatusCode resp) (raw_body (Body resp))), called w))
      else (Inl (AllRetriesFailed (maxRetries + 1) lastErr), w))"
  by pat_completeness auto
termination
  by (relation "measure (\<lambda>(env, attempt, lastErr, w). Suc maxRetries - attempt)") auto

declare getTranscript_loop.simps [simp del]

definition getTranscript :: "env \<Rightarrow> world \<Rightarrow> (stt_error + string) \<times> world" where
  "getTranscript env w = getTranscript_loop env 0 None w"

section \<open>File names\<close>

text \<open>
  \<^verbatim>\<open>filepath.Ext\<close>: scanning from the end, the suffix that starts at the first dot met
  before any path separator; empty when there is none.
\<close>

definition Ext :: "string \<Rightarrow> string" where
  "Ext p =
     (case dropWhile (\<lambda>c. c \<noteq> CHR ''.'' \<and> c \<noteq> CHR ''/'') (rev p) of
        [] \<Rightarrow> []
      | c # _ \<Rightarrow>
          if c = CHR ''.''
          then c # rev (takeWhile (\<lambda>c. c \<noteq> CHR ''.'' \<and> c \<noteq> CHR ''/'') (rev p))
          else [])"

text \<open>
  \<^verbatim>\<open>strings.ToLower\<close> on the ASCII letters. Go also maps letters beyond ASCII; none of
  them becomes one of the letters of the extensions that the commands accept, so an
  extension is accepted here exactly when it is accepted there.
\<close>

definition lower_char :: "char \<Rightarrow> char" where
  "lower_char c =
     (if 65 \<le> (of_char c :: nat) \<and> (of_char c :: nat) \<le> 90
      then char_of ((of_char c :: nat) + 32) else c)"

definition ToLower :: "string \<Rightarrow> string" where
  "ToLower s = map lower_char s"

definition HasSuffix :: "string \<Rightarrow> string \<Rightarrow> bool" where
  "HasSuffix s suffix =
     (length suffix \<le> length s \<and> drop (length s - length suffix) s = suffix)"

definition TrimSuffix :: "string \<Rightarrow> string \<Rightarrow> string" where
  "TrimSuffix s suffix =
     (if HasSuffix s suffix then take (length s - length suffix) s else s)"

text \<open>
  \<^verbatim>\<open>strings.TrimSpace\<close> cuts the white space of Unicode from both ends of the string. The
  white space is the six ASCII characters from tab to carriage return and the space, and
  U+0085, U+00A0, U+1680, U+2000 to U+200A, U+2028, U+2029, U+202F, U+205F and U+3000; a Go
  string holds each in its UTF-8 encoding. Go decodes one code point at the start, and one
  before the end, of what is left: it finds white space there exactly when the bytes
  there are one of these encodings, whatever the bytes next to them.
\<close>

definition space_encodings :: "string list" where
  "space_encodings =
     [[CHR 0x09], [CHR 0x0A], [CHR 0x0B], [CHR 0x0C], [CHR 0x0D], [CHR 0x20],
      [CHR 0xC2, CHR 0x85], [CHR 0xC2, CHR 0xA0], [CHR 0xE1, CHR 0x9A, CHR 0x80],
      [CHR 0xE2, CHR 0x80, CHR 0x80], [CHR 0xE2, CHR 0x80, CHR 0x81],
      [CHR 0xE2, CHR 0x80, CHR 0x82], [CHR 0xE2, CHR 0x80, CHR 0x83],
      [CHR 0xE2, CHR 0x80, CHR 0x84], [CHR 0xE2, CHR 0x80, CHR 0x85],
      [CHR 0xE2, CHR 0x80, CHR 0x86], [CHR 0xE2, CHR 0x80, CHR 0x87],
      [CHR 0xE2, CHR 0x80, CHR 0x88], [CHR 0xE2, CHR 0x80, CHR 0x89],
      [CHR 0xE2, CHR 0x80, CHR 0x8A], [CHR 0xE2, CHR 0x80, CHR 0xA8],
      [CHR 0xE2, CHR 0x80, CHR 0xA9], [CHR 0xE2, CHR 0x80, CHR 0xAF],
      [CHR 0xE2, CHR 0x81, CHR 0x9F], [CHR 0xE3, CHR 0x80, CHR 0x80]]"

text \<open>The string without the white space it starts with, if it starts with one.\<close>

definition cut_space_left :: "string \<Rightarrow> string option" where
  "cut_space_left s =
     (case filter (\<lambda>e. take (length e) s = e) space_encodings of
        [] \<Rightarrow> None
      | e # _ \<Rightarrow> Some (drop (length e) s))"

definition cut_space_right :: "string \<Rightarrow> string option" where
  "cut_space_right s =
     (case filter (\<lambda>e. length e \<le> length s \<and> drop (length s - length e) s = e)
             space_encodings of
        [] \<Rightarrow> None
      | e # _ \<Rightarrow> Some (take (length s - length e) s))"

text \<open>The two loops, each bounded by the number of cuts it may make.\<close>

primrec trim_left :: "nat \<Rightarrow> string \<Rightarrow> string" where
  "trim_left 0 s = s"
| "trim_left (Suc n) s = (case cut_space_left s of None \<Rightarrow> s | Some rest \<Rightarrow> trim_left n rest)"

primrec trim_right :: "nat \<Rightarrow> string \<Rightarrow> string" where
  "trim_right 0 s = s"
| "trim_right (Suc n) s = (case cut_space_right s of None \<Rightarrow> s | Some rest \<Rightarrow> trim_right n rest)"

definition TrimSpace :: "string \<Rightarrow> string" where
  "TrimSpace s = trim_right (length s) (trim_left (length s) s)"

text \<open>One entry of \<^verbatim>\<open>os.ReadDir\<close>.\<close>

record dir_entry =
  Name :: string
  IsDir :: bool

section \<open>stt: the batch\<close>

definition getMimeType :: "string \<Rightarrow> string" where
  "getMimeType ext =
     (if ext = ''.wav'' then ''audio/wav''
      else if ext = ''.mp3'' then ''audio/mpeg''
      else if ext = ''.m4a'' then ''audio/m4a''
      else if ext = ''.flac'' then ''audio/flac''
      else if ext = ''.ogg'' then ''audio/ogg''
      else [])"

text \<open>
  \<^verbatim>\<open>strings.TrimSuffix(audioFilePath, fileExt) + ".txt"\<close>, where \<^verbatim>\<open>fileExt\<close> is the lower-cased
  extension: the suffix is cut only when the name ends with it in lower case. The
  extension is a suffix of the file name, so the cut stays within the name.
\<close>

definition outputTxtPath :: "string \<Rightarrow> string \<Rightarrow> path" where
  "outputTxtPath dir fileName = (dir, TrimSuffix fileName (ToLower (Ext fileName)) @ ''.txt'')"

text \<open>
  The output artifact of an input file in the words of the specification, "input path with
  extension replaced by \<^verbatim>\<open>.txt\<close>": written from those words, to be compared with the paths
  that the two commands compute.
\<close>

definition sibling_txt :: "path \<Rightarrow> path" where
  "sibling_txt input = (fst input, TrimSuffix (snd input) (Ext (snd input)) @ ''.txt'')"

text \<open>
  The body of the loop over the directory entries, on the error count and the world.
  \<^verbatim>\<open>os.Stat\<close> returns no error exactly for a path that exists; \<^verbatim>\<open>os.ReadFile\<close> fails on a
  file that is missing or unreadable.
\<close>

definition stt_file :: "env \<Rightarrow> string \<Rightarrow> bool \<Rightarrow> dir_entry \<Rightarrow> nat \<times> world \<Rightarrow> nat \<times> world" where
  "stt_file env flagDir flagForce file st =
     (let errorCnt = fst st; w = snd st in
      if IsDir file then (errorCnt, w)
      else
        let fileName = Name file;
            fileExt = ToLower (Ext fileName);
            mimeType = getMimeType fileExt
        in
          if mimeType = [] then (errorCnt, w)
          else
            let audioFilePath = (flagDir, fileName);
                out = outputTxtPath flagDir fileName
            in
              if \<not> flagForce \<and> out \<in> dom (files w) then (errorCnt, w)
              else if audioFilePath \<notin> dom (files w) \<or> audioFilePath \<in> unreadable env
                then (Suc errorCnt, w)
              else
                (case getTranscript env w of
                   (Inl e, w1) \<Rightarrow> (Suc errorCnt, w1)
                 | (Inr transcript, w1) \<Rightarrow>
                     (case WriteFile env out transcript w1 of
                        (True, w2) \<Rightarrow> (errorCnt, w2)
                      | (False, w2) \<Rightarrow> (Suc errorCnt, w2))))"

definition stt_files :: "env \<Rightarrow> string \<Rightarrow> bool \<Rightarrow> dir_entry list \<Rightarrow> world \<Rightarrow> nat \<times> world" where
  "stt_files env flagDir flagForce entries w = fold (stt_file env flagDir flagForce) entries (0, w)"

text \<open>
  The command: the key must be set and \<^verbatim>\<open>os.ReadDir\<close> must succeed (its entries are the
  argument, \<open>None\<close> when it fails); the result is the error the command returns, if any.
\<close>

datatype cmd_error = KeyNotSet | ReadDirFailed | Errors nat

definition stt :: "env \<Rightarrow> string \<Rightarrow> string \<Rightarrow> bool \<Rightarrow> dir_entry list option \<Rightarrow> world
    \<Rightarrow> cmd_error option \<times> world" where
  "stt env apiKey flagDir flagForce listing w =
     (if apiKey = [] then (Some KeyNotSet, w)
      else
        (case listing of
           None \<Rightarrow> (Some ReadDirFailed, w)
         | Some entries \<Rightarrow>
             (case stt_files env flagDir flagForce entries w of
                (errorCnt, w1) \<Rightarrow> (if errorCnt > 0 then Some (Errors errorCnt) else None, w1))))"

section \<open>caption: processImage\<close>

text \<open>\<^verbatim>\<open>maxRetries = 3\<close> of the caption command, "Number of retries for API calls".\<close>

definition caption_maxRetries :: nat where
  "caption_maxRetries = 3"

datatype caption_error =
    ReadImageFailed
  | CaptionRequestFailed
  | DecodeFailed
  | AllRetriesFailedNetwork string
  | StatusFailed int
  | NoCaption
  | WriteCaptionFailed

text \<open>
  The variables that outlive an iteration of the loop: \<^verbatim>\<open>geminiResp\<close> (the struct holds
  the candidates only), \<^verbatim>\<open>resp\<close>, \<^verbatim>\<open>reqErr\<close> and \<^verbatim>\<open>delay\<close>.
\<close>

record loop_vars =
  geminiResp :: "candidate list"
  resp :: "http_response option"
  reqErr :: "string option"
  delay :: duration

text \<open>
  The test \<^verbatim>\<open>len(Candidates) == 0 || len(Candidates[0].Content.Parts) == 0 ||
  Candidates[0].Content.Parts[0].Text == ""\<close>, made in the loop and again after it.
\<close>

definition empty_caption :: "candidate list \<Rightarrow> bool" where
  "empty_caption cs =
     (case cs of
        [] \<Rightarrow> True
      | c # _ \<Rightarrow> (case Parts (Content c) of [] \<Rightarrow> True | p # _ \<Rightarrow> Text p = []))"

text \<open>
  \<^verbatim>\<open>for range maxRetries\<close>, with the number of iterations left. \<open>Inl\<close> is a return from
  inside the loop; \<open>Inr\<close> carries the variables to the code after the loop, reached by
  \<^verbatim>\<open>break\<close> or when the iterations are used up. The decoder writes the candidates of the
  payload into \<^verbatim>\<open>geminiResp\<close>.
\<close>

fun caption_loop :: "env \<Rightarrow> nat \<Rightarrow> loop_vars \<Rightarrow> world \<Rightarrow> (caption_error + loop_vars) \<times> world" where
  "caption_loop env 0 v w = (Inr v, w)"
| "caption_loop env (Suc n) v w =
     (if \<not> url_ok env then (Inl CaptionRequestFailed, w)
      else
        (case transport env (calls w) of
           NetworkError e \<Rightarrow>
             caption_loop env n (v\<lparr>resp := None, reqErr := Some e, delay := delay v * 2\<rparr>)
               (sleep (delay v) (called w))
         | Response r \<Rightarrow>
             if StatusCode r = 429 \<or> StatusCode r \<ge> 500 then
               caption_loop env n (v\<lparr>resp := Some r, reqErr := None, delay := delay v * 2\<rparr>)
                 (sleep (delay v) (called w))
             else if StatusCode r \<noteq> 200 then (Inr (v\<lparr>resp := Some r, reqErr := None\<rparr>), called w)
             else
               (case Body r of
                  Unreadable raw \<Rightarrow> (Inl DecodeFailed, called w)
                | Malformed raw \<Rightarrow> (Inl DecodeFailed, called w)
                | Json raw payload \<Rightarrow>
                    if empty_caption (Candidates payload) then
                      caption_loop env n
                        (v\<lparr>geminiResp := Candidates payload, resp := Some r, reqErr := None,
                           delay := delay v * 2\<rparr>)
                        (sleep (delay v) (called w))
                    else
                      (Inr (v\<lparr>geminiResp := Candidates payload, resp := Some r, reqErr := None\<rparr>),
                       called w))))"

text \<open>The path of the caption file: the base name with its extension replaced by \<^verbatim>\<open>.txt\<close>.\<close>

definition txtPath :: "path \<Rightarrow> path" where
  "txtPath imagePath = (fst imagePath, TrimSuffix (snd imagePath) (Ext (snd imagePath)) @ ''.txt'')"

text \<open>
  The code after the loop up to \<^verbatim>\<open>caption := ...Text\<close>: the check of \<^verbatim>\<open>reqErr\<close>, the check
  of the status of \<^verbatim>\<open>resp\<close>, and the emptiness test on \<^verbatim>\<open>geminiResp\<close>.
\<close>

definition caption_text :: "candidate list \<Rightarrow> caption_error + string" where
  "caption_text cs =
     (case cs of
        [] \<Rightarrow> Inl NoCaption
      | c # _ \<Rightarrow>
          (case Parts (Content c) of
             [] \<Rightarrow> Inl NoCaption
           | p # _ \<Rightarrow> if Text p = [] then Inl NoCaption else Inr (Text p)))"

definition extract_caption :: "loop_vars \<Rightarrow> caption_error + string" where
  "extract_caption v =
     (case reqErr v of
        Some e \<Rightarrow> Inl (AllRetriesFailedNetwork e)
      | None \<Rightarrow>
          (case resp v of
             None \<Rightarrow> caption_text (geminiResp v)
           | Some r \<Rightarrow>
               if StatusCode r \<noteq> 200 then Inl (StatusFailed (StatusCode r))
               else caption_text (geminiResp v)))"

text \<open>
  Steps 4 and 5 of \<^verbatim>\<open>processImage\<close>, the call of the API with retries and the reading of
  the response: the loop from its initial variables, then the checks after it.
\<close>

definition caption_response :: "env \<Rightarrow> world \<Rightarrow> (caption_error + string) \<times> world" where
  "caption_response env w =
     (case caption_loop env caption_maxRetries
             \<lparr>geminiResp = [], resp = None, reqErr = None, delay = 2 * Second\<rparr> w of
        (Inl e, w1) \<Rightarrow> (Inl e, w1)
      | (Inr v, w1) \<Rightarrow> (extract_caption v, w1))"

text \<open>
  \<^verbatim>\<open>processImage\<close>: the check for an existing caption file, the read of the image, the
  call, the identity put before the trimmed caption, the write. The result is the error
  returned, \<open>None\<close> for \<^verbatim>\<open>nil\<close>.
\<close>

definition processImage ::
  "env \<Rightarrow> path \<Rightarrow> bool \<Rightarrow> string \<Rightarrow> world \<Rightarrow> caption_error option \<times> world" where
  "processImage env imagePath force identity w =
     (if \<not> force \<and> txtPath imagePath \<in> dom (files w) then (None, w)
      else if imagePath \<notin> dom (files w) \<or> imagePath \<in> unreadable env
        then (Some ReadImageFailed, w)
      else
        (case caption_response env w of
           (Inl e, w1) \<Rightarrow> (Some e, w1)
         | (Inr caption, w1) \<Rightarrow>
             let finalCaption = TrimSpace caption;
                 finalCaption =
                   (if identity \<noteq> [] then identity @ '', '' @ finalCaption else finalCaption)
             in
               (case WriteFile env (txtPath imagePath) finalCaption w1 of
                  (True, w2) \<Rightarrow> (None, w2)
                | (False, w2) \<Rightarrow> (Some WriteCaptionFailed, w2))))"

section \<open>caption: the batch\<close>

definition isImageFile :: "string \<Rightarrow> bool" where
  "isImageFile filename =
     (let ext = ToLower (Ext filename)
      in ext = ''.jpg'' \<or> ext = ''.jpeg'' \<or> ext = ''.png'' \<or> ext = ''.webp'')"

definition caption_file ::
  "env \<Rightarrow> string \<Rightarrow> bool \<Rightarrow> string \<Rightarrow> dir_entry \<Rightarrow> nat \<times> world \<Rightarrow> nat \<times> world" where
  "caption_file env flagDir flagForce flagIdentity file st =
     (let errorCnt = fst st; w = snd st in
      if IsDir file \<or> \<not> isImageFile (Name file) then (errorCnt, w)
      else
        (case processImage env (flagDir, Name file) flagForce flagIdentity w of
           (None, w1) \<Rightarrow> (errorCnt, w1)
         | (Some e, w1) \<Rightarrow> (Suc errorCnt, w1)))"

definition caption_files ::
  "env \<Rightarrow> string \<Rightarrow> bool \<Rightarrow> string \<Rightarrow> dir_entry list \<Rightarrow> world \<Rightarrow> nat \<times> world" where
  "caption_files env flagDir flagForce flagIdentity entries w =
     fold (caption_file env flagDir flagForce flagIdentity) entries (0, w)"

definition caption :: "env \<Rightarrow> string \<Rightarrow> string \<Rightarrow> bool \<Rightarrow> string \<Rightarrow> dir_entry list option \<Rightarrow> world
    \<Rightarrow> cmd_error option \<times> world" where
  "caption env apiKey flagDir flagForce flagIdentity listing w =
     (if apiKey = [] then (Some KeyNotSet, w)
      else
        (case listing of
           None \<Rightarrow> (Some ReadDirFailed, w)
         | Some entries \<Rightarrow>
             (case caption_files env flagDir flagForce flagIdentity entries w of
                (errorCnt, w1) \<Rightarrow> (if errorCnt > 0 then Some (Errors errorCnt) else None, w1))))"

section \<open>Outcomes of an attempt\<close>

text \<open>
  The failure that \<^verbatim>\<open>getTranscript\<close> records in \<^verbatim>\<open>lastErr\<close> before it sleeps and tries
  again; \<open>None\<close> for an outcome after which it returns.
\<close>

definition recorded_failure :: "outcome \<Rightarrow> stt_error option" where
  "recorded_failure out =
     (case out of
        NetworkError e \<Rightarrow> Some (RequestFailed e)
      | Response r \<Rightarrow>
          if StatusCode r \<noteq> 200 \<and> retryable_status (StatusCode r)
          then Some (RetryableStatus (StatusCode r) (raw_body (Body r))) else None)"

text \<open>
  The outcome after which \<^verbatim>\<open>processImage\<close> leaves its loop with a caption: status 200, a
  body that decodes, and candidates that pass the emptiness test.
\<close>

definition valid_caption :: "outcome \<Rightarrow> candidate list \<Rightarrow> bool" where
  "valid_caption out cs =
     (case out of
        NetworkError e \<Rightarrow> False
      | Response r \<Rightarrow>
          StatusCode r = 200 \<and>
          (case Body r of
             Json raw payload \<Rightarrow> Candidates payload = cs \<and> \<not> empty_caption cs
           | _ \<Rightarrow> False))"

text \<open>
  The outcomes after which the loop of \<^verbatim>\<open>processImage\<close> sleeps and goes on: a network
  error, status 429, a status from 500 on, and status 200 with a payload that decodes and
  fails the emptiness test.
\<close>

definition caption_retryable :: "outcome \<Rightarrow> bool" where
  "caption_retryable out =
     (case out of
        NetworkError e \<Rightarrow> True
      | Response r \<Rightarrow>
          StatusCode r = 429 \<or> StatusCode r \<ge> 500 \<or>
          (StatusCode r = 200 \<and>
           (case Body r of Json raw payload \<Rightarrow> empty_caption (Candidates payload)
            | _ \<Rightarrow> False)))"

section \<open>Stub transports and small directories\<close>

text \<open>
  A transport that returns the same outcome to every call, with jitter draws of 0, a URL
  that \<^verbatim>\<open>http.NewRequest\<close> accepts, no file that cannot be read and no write that fails.
\<close>

definition stub_env :: "outcome \<Rightarrow> env" where
  "stub_env out = \<lparr>transport = (\<lambda>n. out), randIntn = (\<lambda>n. 0), url_ok = True,
                    unreadable = {}, write_result = (\<lambda>name data. Written)\<rparr>"

text \<open>A fresh run on a disk that holds the listed files.\<close>

definition disk :: "(path \<times> string) list \<Rightarrow> world" where
  "disk fs = \<lparr>calls = 0, draws = 0, slept = [], files = map_of fs\<rparr>"

definition status_response :: "int \<Rightarrow> outcome" where
  "status_response s = Response \<lparr>StatusCode = s, Body = Unreadable []\<rparr>"

definition json_response :: "candidate list \<Rightarrow> prompt_feedback option \<Rightarrow> outcome" where
  "json_response cs pf =
     Response \<lparr>StatusCode = 200, Body = Json [] \<lparr>Candidates = cs, PromptFeedback = pf\<rparr>\<rparr>"

definition text_candidate :: "string \<Rightarrow> candidate" where
  "text_candidate t = \<lparr>Content = \<lparr>Parts = [\<lparr>Text = t\<rparr>]\<rparr>\<rparr>"

definition image_dir :: world where
  "image_dir = disk [((''d'', ''x.jpg''), ''image bytes'')]"

definition audio_dir :: world where
  "audio_dir = disk [((''d'', ''a.wav''), ''audio bytes'')]"

definition a_wav :: dir_entry where
  "a_wav = \<lparr>Name = ''a.wav'', IsDir = False\<rparr>"


definition hello_env :: env where
  "hello_env = stub_env (json_response [text_candidate ''hello''] None)"



text \<open>
  A directory with \<^verbatim>\<open>A.WAV\<close> and its transcript \<^verbatim>\<open>A.txt\<close>; and the transport that answers
  every request with an empty text.
\<close>

definition upper_dir :: world where
  "upper_dir = disk [((''d'', ''A.WAV''), ''audio bytes''), ((''d'', ''A.txt''), ''old'')]"

definition upper_wav :: dir_entry where
  "upper_wav = \<lparr>Name = ''A.WAV'', IsDir = False\<rparr>"

definition empty_text_env :: env where
  "empty_text_env = stub_env (json_response [text_candidate []] None)"

section \<open>Properties of the filename substitution\<close>

text \<open>The character class is the ASCII characters outside \<^verbatim>\<open>[-_.a-zA-Z0-9]\<close>.\<close>

lemma special_char_iff: "special_char c \<longleftrightarrow> (of_char c :: nat) < 128 \<and> \<not> plain_char c"
proof -
  have a: "c = CHR ''-'' \<longleftrightarrow> (of_char c :: nat) = 45"
    using of_char_eq_iff [of c "CHR ''-''", where ?'a = nat] by simp
  have b: "c = CHR ''_'' \<longleftrightarrow> (of_char c :: nat) = 95"
    using of_char_eq_iff [of c "CHR ''_''", where ?'a = nat] by simp
  have d: "c = CHR ''.'' \<longleftrightarrow> (of_char c :: nat) = 46"
    using of_char_eq_iff [of c "CHR ''.''", where ?'a = nat] by simp
  show ?thesis
    unfolding special_char_def plain_char_def Let_def a b d by arith
qed

lemma underscore_not_special: "\<not> special_char CHR ''_''"
  by (simp add: special_char_def)

lemma normalize_name_fixes_output:
  "normalize_name (map (\<lambda>c. if special_char c then CHR ''_'' else c) s)
     = map (\<lambda>c. if special_char c then CHR ''_'' else c) s"
  by (induction s) (simp_all add: normalize_name_def underscore_not_special)

lemma normalize_name_twice: "normalize_name (normalize_name s) = normalize_name s"
  using normalize_name_fixes_output [of s] by (simp add: normalize_name_def)

lemma pendingRenames_renamed: "pendingRenames (renamed es) = []"
  by (induction es) (simp_all add: renamed_def normalize_name_twice)

text \<open>
  Claim C10. The substitution of norfilenames is idempotent: for every filename, applying
  it twice gives the same string as applying it once; and a walk over a directory whose
  files already bear normalized names collects no pending rename.
\<close>

theorem norfilenames_idempotent:
  "normalize_name (normalize_name s) = normalize_name s
   \<and> pendingRenames (renamed es) = []"
  by (simp add: normalize_name_twice pendingRenames_renamed)

theorem norfilenames_idempotent_witness:
  "normalize_name (normalize_name ''a b#1.wav'') = ''a_b_1.wav''
   \<and> pendingRenames (renamed [\<lparr>entry_dir = ''d'', entry_name = ''a b#1.wav'', entry_is_dir = False\<rparr>]) = []"
  using norfilenames_idempotent
    [of "''a b#1.wav''" "[\<lparr>entry_dir = ''d'', entry_name = ''a b#1.wav'', entry_is_dir = False\<rparr>]"]
  by (simp add: normalize_name_def special_char_def)

section \<open>Properties of the backoff policy\<close>

lemma sint_word_of_int_small:
  "- 9223372036854775808 \<le> k \<Longrightarrow> k < 9223372036854775808
   \<Longrightarrow> sint (word_of_int k :: 64 word) = k"
  by (simp add: sint_sbintrunc' signed_take_bit_int_eq_self)

lemma two_power_le_30: "a \<le> 30 \<Longrightarrow> (2::int) ^ a \<le> 2 ^ 30"
  by (rule power_increasing) simp_all

lemma sint_baseBackoff: "sint baseBackoff = 6000000000"
  by (simp add: baseBackoff_def Second_def Millisecond_def)

lemma sint_maxBackoff: "sint maxBackoff = 60000000000"
  by (simp add: maxBackoff_def Second_def Millisecond_def)

lemma sint_Second: "sint Second = 1000000000"
  by (simp add: Second_def Millisecond_def)

lemma capped_eq: "capped a = min (6000000000 * 2 ^ a) 60000000000"
  by (simp add: capped_def sint_baseBackoff sint_maxBackoff)

lemma raw_backoff_as_int:
  "baseBackoff * shift_left 1 a = (word_of_int (6000000000 * 2 ^ a) :: 64 word)"
  by (simp add: baseBackoff_def Second_def Millisecond_def shift_left_def push_bit_eq_mult)

lemma sint_raw_backoff:
  assumes "a \<le> 30"
  shows "sint (baseBackoff * shift_left 1 a) = 6000000000 * 2 ^ a"
proof -
  have "(2::int) ^ a \<le> 2 ^ 30" using assms by (rule two_power_le_30)
  then have "6000000000 * (2::int) ^ a \<le> 6000000000 * 2 ^ 30" by (rule mult_left_mono) simp
  then have hi: "6000000000 * (2::int) ^ a < 9223372036854775808" by simp
  have "- 9223372036854775808 \<le> (0::int)" by simp
  also have "(0::int) \<le> 6000000000 * 2 ^ a" by simp
  finally have lo: "- 9223372036854775808 \<le> 6000000000 * (2::int) ^ a" .
  from lo hi show ?thesis unfolding raw_backoff_as_int by (rule sint_word_of_int_small)
qed

lemma sint_capped_backoff:
  assumes "a \<le> 30"
  shows "sint (if maxBackoff <s baseBackoff * shift_left 1 a then maxBackoff
               else baseBackoff * shift_left 1 a) = capped a"
proof -
  have r: "sint (baseBackoff * shift_left 1 a) = 6000000000 * 2 ^ a"
    using assms by (rule sint_raw_backoff)
  show ?thesis
  proof (cases "maxBackoff <s baseBackoff * shift_left 1 a")
    case True
    then have "60000000000 < 6000000000 * (2::int) ^ a"
      by (simp add: word_sless_alt sint_maxBackoff r)
    then have "capped a = 60000000000" by (simp add: capped_eq)
    with True show ?thesis by (simp add: sint_maxBackoff)
  next
    case False
    then have "\<not> 60000000000 < 6000000000 * (2::int) ^ a"
      by (simp add: word_sless_alt sint_maxBackoff r)
    then have "capped a = 6000000000 * 2 ^ a" by (simp add: capped_eq)
    with False show ?thesis by (simp add: r)
  qed
qed

lemma jitter_as_int:
  "word_of_nat (r mod 1000) * Millisecond
     = (word_of_int (int (r mod 1000) * 1000000) :: 64 word)"
  by (simp add: Millisecond_def)

text \<open>Up to attempt 30 nothing wraps: the delay is the capped power plus the jitter.\<close>

lemma calculateBackoff_value:
  assumes "a \<le> 30"
  shows "\<exists>d. calculateBackoff (int a) r = Some d
             \<and> sint d = capped a + int (r mod 1000) * 1000000"
proof -
  let ?b = "if maxBackoff <s baseBackoff * shift_left 1 a then maxBackoff
            else baseBackoff * shift_left 1 a"
  let ?j = "word_of_nat (r mod 1000) * Millisecond :: 64 word"
  have c: "sint ?b = capped a" using assms by (rule sint_capped_backoff)
  have c0: "0 \<le> capped a" "capped a \<le> 60000000000" by (simp_all add: capped_eq)
  have j0: "0 \<le> int (r mod 1000) * 1000000" "int (r mod 1000) * 1000000 < 1000000000"
    by simp_all
  have "word_of_int (sint ?b) = ?b" by simp
  then have b: "?b = word_of_int (capped a)" by (simp only: c)
  have "?b + ?j = word_of_int (capped a + int (r mod 1000) * 1000000)"
    by (simp only: b jitter_as_int wi_hom_add)
  moreover have "sint (word_of_int (capped a + int (r mod 1000) * 1000000) :: 64 word)
                   = capped a + int (r mod 1000) * 1000000"
    using c0 j0 by (intro sint_word_of_int_small) linarith+
  ultimately have "sint (?b + ?j) = capped a + int (r mod 1000) * 1000000" by (simp only:)
  then show ?thesis by (simp add: calculateBackoff_def Let_def)
qed

lemma capped_mono: "a \<le> b \<Longrightarrow> capped a \<le> capped b"
proof -
  assume "a \<le> b"
  then have "(2::int) ^ a \<le> 2 ^ b" by (simp add: power_increasing)
  then have "6000000000 * (2::int) ^ a \<le> 6000000000 * 2 ^ b" by (rule mult_left_mono) simp
  then have "min (6000000000 * (2::int) ^ a) 60000000000 \<le> min (6000000000 * 2 ^ b) 60000000000"
    by (rule min.mono) simp
  then show ?thesis by (simp only: capped_eq)
qed

text \<open>
  Up to attempt 30, which covers the attempts 0 to \<open>maxRetries\<close> that the loop of
  \<^verbatim>\<open>getTranscript\<close> passes, the delay lies in the interval of the specification, for every
  jitter draw.
\<close>

lemma calculateBackoff_in_interval:
  assumes "0 \<le> a" and "a \<le> 30"
  shows "\<exists>d. calculateBackoff a r = Some d \<and> in_backoff_interval (nat a) d"
proof -
  have na: "nat a \<le> 30" using assms by simp
  obtain d where d: "calculateBackoff (int (nat a)) r = Some d"
      "sint d = capped (nat a) + int (r mod 1000) * 1000000"
    using calculateBackoff_value [OF na] by blast
  have j: "0 \<le> int (r mod 1000) * 1000000" "int (r mod 1000) * 1000000 < 1000000000"
    by simp_all
  have "in_backoff_interval (nat a) d"
    using d(2) j by (simp add: in_backoff_interval_def sint_Second)
  moreover have "calculateBackoff a r = Some d" using d(1) assms by simp
  ultimately show ?thesis by blast
qed

text \<open>
  Below the cap a step to the next attempt adds at least six seconds, more than any
  jitter: up to the cap the delay grows from an attempt to every later one, whatever the
  two jitter draws are. From attempt 4 on the delay is the cap plus the jitter.
\<close>

lemma capped_step:
  assumes "n \<le> 3"
  shows "capped n + 6000000000 \<le> capped (Suc n)"
proof -
  from assms have "n = 0 \<or> n = 1 \<or> n = 2 \<or> n = 3" by arith
  then show ?thesis by (auto simp: capped_eq)
qed

lemma calculateBackoff_increasing:
  assumes "0 \<le> a" and "a < b" and "b \<le> 30" and "a \<le> 3"
  shows "\<exists>d e. calculateBackoff a r = Some d \<and> calculateBackoff b r' = Some e
           \<and> sint d < sint e"
proof -
  have na: "nat a \<le> 30" and nb: "nat b \<le> 30" and ab: "Suc (nat a) \<le> nat b"
    and n3: "nat a \<le> 3"
    using assms by simp_all
  obtain d where d: "calculateBackoff (int (nat a)) r = Some d"
      "sint d = capped (nat a) + int (r mod 1000) * 1000000"
    using calculateBackoff_value [OF na] by blast
  obtain e where e: "calculateBackoff (int (nat b)) r' = Some e"
      "sint e = capped (nat b) + int (r' mod 1000) * 1000000"
    using calculateBackoff_value [OF nb] by blast
  have j: "int (r mod 1000) * 1000000 < 1000000000" "0 \<le> int (r' mod 1000) * 1000000"
    by simp_all
  have "capped (nat a) + 6000000000 \<le> capped (nat b)"
    using capped_step [OF n3] capped_mono [OF ab] by linarith
  then have "sint d < sint e" using d(2) e(2) j by linarith
  moreover have "calculateBackoff a r = Some d" "calculateBackoff b r' = Some e"
    using d(1) e(1) assms by simp_all
  ultimately show ?thesis by blast
qed

lemma calculateBackoff_at_cap:
  assumes "4 \<le> a" and "a \<le> 30"
  shows "\<exists>d. calculateBackoff a r = Some d
           \<and> sint d = sint maxBackoff + int (r mod 1000) * 1000000"
proof -
  have na: "nat a \<le> 30" and n4: "4 \<le> nat a" using assms by simp_all
  obtain d where d: "calculateBackoff (int (nat a)) r = Some d"
      "sint d = capped (nat a) + int (r mod 1000) * 1000000"
    using calculateBackoff_value [OF na] by blast
  have "capped 4 \<le> capped (nat a)" using n4 by (rule capped_mono)
  moreover have "capped 4 = 60000000000" by (simp add: capped_eq)
  moreover have "capped (nat a) \<le> 60000000000" by (simp add: capped_eq)
  ultimately have "capped (nat a) = sint maxBackoff" by (simp add: sint_maxBackoff)
  moreover have "calculateBackoff a r = Some d" using d(1) assms by simp
  ultimately show ?thesis using d(2) by simp
qed



section \<open>Properties of getTranscript\<close>

lemma files_sleep [simp]: "files (sleep d w) = files w"
  by (simp add: sleep_def)

lemma files_called [simp]: "files (called w) = files w"
  by (simp add: called_def)

lemma calls_sleep [simp]: "calls (sleep d w) = calls w"
  by (simp add: sleep_def)

lemma calls_called [simp]: "calls (called w) = Suc (calls w)"
  by (simp add: called_def)

text \<open>The loop counts up from 0, so the shift count is never negative.\<close>

lemma draw_backoff_Some:
  "\<exists>d. draw_backoff env attempt w = (Some d, w\<lparr>draws := Suc (draws w)\<rparr>)"
  by (simp add: draw_backoff_def calculateBackoff_def Let_def)

text \<open>An outcome with a recorded failure leads to the next attempt, after one call and one sleep.\<close>

lemma getTranscript_loop_retry:
  assumes "attempt \<le> maxRetries" and "url_ok env"
    and "recorded_failure (transport env (calls w)) = Some e"
  shows "\<exists>w1. getTranscript_loop env attempt lastErr w
                 = getTranscript_loop env (Suc attempt) (Some e) w1
              \<and> calls w1 = Suc (calls w) \<and> files w1 = files w
              \<and> length (slept w1) = Suc (length (slept w))"
proof (cases "transport env (calls w)")
  case (NetworkError x)
  obtain d where d: "draw_backoff env attempt (called w)
      = (Some d, (called w)\<lparr>draws := Suc (draws (called w))\<rparr>)"
    using draw_backoff_Some by blast
  show ?thesis
    using assms NetworkError d
    by (subst getTranscript_loop.simps)
       (auto simp: recorded_failure_def sleep_def called_def)
next
  case (Response r)
  obtain d1 where d1: "draw_backoff env attempt (called w)
      = (Some d1, (called w)\<lparr>draws := Suc (draws (called w))\<rparr>)"
    using draw_backoff_Some by blast
  obtain d2 where d2: "draw_backoff env attempt ((called w)\<lparr>draws := Suc (draws (called w))\<rparr>)
      = (Some d2, (called w)\<lparr>draws := Suc (Suc (draws (called w)))\<rparr>)"
    using draw_backoff_Some [of env attempt "(called w)\<lparr>draws := Suc (draws (called w))\<rparr>"]
    by auto
  show ?thesis
    using assms Response d1 d2
    by (subst getTranscript_loop.simps)
       (auto simp: recorded_failure_def sleep_def called_def split: if_splits)
qed

text \<open>
  When each of the attempts left meets an outcome with a recorded failure, the loop makes
  exactly that many calls, sleeps after each, and returns the terminal error with the
  failure recorded last.
\<close>

lemma getTranscript_loop_exhausted:
  assumes "url_ok env"
    and "n = Suc maxRetries - attempt" and "attempt \<le> Suc maxRetries"
    and "\<forall>k<n. recorded_failure (transport env (calls w + k)) \<noteq> None"
  shows "\<exists>w'. getTranscript_loop env attempt lastErr w
                 = (Inl (AllRetriesFailed (maxRetries + 1)
                      (if n = 0 then lastErr
                       else recorded_failure (transport env (calls w + n - 1)))), w')
              \<and> calls w' = calls w + n \<and> files w' = files w
              \<and> length (slept w') = length (slept w) + n"
  using assms(2-)
proof (induction n arbitrary: attempt lastErr w)
  case 0
  then have "\<not> attempt \<le> maxRetries" by simp
  then show ?case by (subst getTranscript_loop.simps) simp
next
  case (Suc n)
  then have le: "attempt \<le> maxRetries" by simp
  from Suc.prems(3) have "recorded_failure (transport env (calls w + 0)) \<noteq> None" by blast
  then obtain e where e: "recorded_failure (transport env (calls w)) = Some e" by auto
  obtain w1 where w1:
      "getTranscript_loop env attempt lastErr w = getTranscript_loop env (Suc attempt) (Some e) w1"
      "calls w1 = Suc (calls w)" "files w1 = files w"
      "length (slept w1) = Suc (length (slept w))"
    using getTranscript_loop_retry [OF le assms(1) e] by blast
  have n: "n = Suc maxRetries - Suc attempt" and a: "Suc attempt \<le> Suc maxRetries"
    using Suc.prems le by simp_all
  have r: "\<forall>k<n. recorded_failure (transport env (calls w1 + k)) \<noteq> None"
  proof (intro allI impI)
    fix k assume "k < n"
    then have "Suc k < Suc n" by simp
    with Suc.prems(3) have "recorded_failure (transport env (calls w + Suc k)) \<noteq> None" by blast
    then show "recorded_failure (transport env (calls w1 + k)) \<noteq> None" by (simp add: w1(2))
  qed
  obtain w' where w':
      "getTranscript_loop env (Suc attempt) (Some e) w1
         = (Inl (AllRetriesFailed (maxRetries + 1)
              (if n = 0 then Some e
               else recorded_failure (transport env (calls w1 + n - 1)))), w')"
      "calls w' = calls w1 + n" "files w' = files w1"
      "length (slept w') = length (slept w1) + n"
    using Suc.IH [OF n a r] by blast
  have "(if n = 0 then Some e else recorded_failure (transport env (calls w1 + n - 1)))
          = recorded_failure (transport env (calls w + Suc n - 1))"
    using e by (cases n) (simp_all add: w1(2))
  with w' w1 show ?case by simp
qed

text \<open>
  For the stt command the statement of claim C2 holds: when every attempt meets a network
  error or one of the retryable statuses, \<^verbatim>\<open>getTranscript\<close> makes \<open>maxRetries + 1\<close> calls and
  returns the terminal error that carries the last failure.
\<close>

lemma getTranscript_all_retryable:
  assumes "url_ok env"
    and "\<forall>k<Suc maxRetries. recorded_failure (transport env (calls w + k)) \<noteq> None"
  shows "\<exists>w'. getTranscript env w
                 = (Inl (AllRetriesFailed (maxRetries + 1)
                      (recorded_failure (transport env (calls w + maxRetries)))), w')
              \<and> calls w' = calls w + (maxRetries + 1) \<and> files w' = files w"
  using getTranscript_loop_exhausted [OF assms(1), of "Suc maxRetries" 0 w None] assms(2)
  by (auto simp: getTranscript_def)

lemma getTranscript_fatal_status:
  assumes "transport env (calls w) = Response r" and "url_ok env"
    and "StatusCode r \<noteq> 200" and "\<not> retryable_status (StatusCode r)"
  shows "getTranscript env w
           = (Inl (NonRetryableStatus (StatusCode r) (raw_body (Body r))), called w)"
  using assms unfolding getTranscript_def
  by (subst getTranscript_loop.simps) (simp add: maxRetries_def)

lemma getTranscript_status_ok:
  assumes "transport env (calls w) = Response r" and "url_ok env" and "StatusCode r = 200"
  shows "getTranscript env w = (status_ok (Body r), called w)"
  using assms unfolding getTranscript_def
  by (subst getTranscript_loop.simps) (simp add: maxRetries_def)

text \<open>
  For the stt command the statement of claim C5 holds: a response of status 200 whose
  prompt feedback names a block reason ends the call at once, with the error that
  carries the reason.
\<close>

lemma getTranscript_blocked:
  assumes "transport env (calls w) = Response r" and "url_ok env" and "StatusCode r = 200"
    and "Body r = Json raw apiResp" and "PromptFeedback apiResp = Some pf"
    and "BlockReason pf \<noteq> []"
  shows "getTranscript env w = (Inl (Blocked (BlockReason pf)), called w)"
  using getTranscript_status_ok [OF assms(1-3)] assms(4-) by (simp add: status_ok_def)

lemma getTranscript_loop_files:
  "n = Suc maxRetries - attempt \<Longrightarrow> files (snd (getTranscript_loop env attempt lastErr w)) = files w"
proof (induction n arbitrary: attempt lastErr w)
  case 0
  then have "\<not> attempt \<le> maxRetries" by simp
  then show ?case by (subst getTranscript_loop.simps) simp
next
  case (Suc n)
  then have a: "attempt \<le> maxRetries" by simp
  show ?case
  proof (cases "url_ok env")
    case False
    then show ?thesis using a by (subst getTranscript_loop.simps) simp
  next
    case True
    show ?thesis
    proof (cases "recorded_failure (transport env (calls w))")
      case None
      then show ?thesis
        using a True by (subst getTranscript_loop.simps)
          (auto simp: recorded_failure_def split: outcome.splits if_splits)
    next
      case (Some e)
      obtain w1 where w1:
          "getTranscript_loop env attempt lastErr w
             = getTranscript_loop env (Suc attempt) (Some e) w1"
          "files w1 = files w"
        using getTranscript_loop_retry [OF a True Some] by blast
      have "n = Suc maxRetries - Suc attempt" using Suc.prems by simp
      from Suc.IH [OF this] show ?thesis by (simp add: w1)
    qed
  qed
qed

lemma getTranscript_files: "getTranscript env w = (res, w') \<Longrightarrow> files w' = files w"
  using getTranscript_loop_files [of "Suc maxRetries" 0 env None w] by (simp add: getTranscript_def)

section \<open>Properties of processImage\<close>

lemma caption_loop_files: "files (snd (caption_loop env n v w)) = files w"
  by (induction n arbitrary: v w) (auto split: outcome.splits body.splits)

text \<open>
  For the caption command the statements of claims C3 and C4 hold: after status 429, a
  status from 500 on, or a decoded payload that fails the emptiness test, the loop sleeps
  and goes on to its next iteration.
\<close>

lemma caption_loop_retry_status:
  assumes "transport env (calls w) = Response r" and "url_ok env"
    and "StatusCode r = 429 \<or> (500 \<le> StatusCode r \<and> StatusCode r \<le> 599)"
  shows "caption_loop env (Suc n) v w
           = caption_loop env n (v\<lparr>resp := Some r, reqErr := None, delay := delay v * 2\<rparr>)
               (sleep (delay v) (called w))"
  using assms by auto

lemma caption_loop_retry_empty:
  assumes "transport env (calls w) = Response r" and "url_ok env" and "StatusCode r = 200"
    and "Body r = Json raw payload" and "empty_caption (Candidates payload)"
  shows "caption_loop env (Suc n) v w
           = caption_loop env n
               (v\<lparr>geminiResp := Candidates payload, resp := Some r, reqErr := None,
                  delay := delay v * 2\<rparr>)
               (sleep (delay v) (called w))"
  using assms by simp

lemma caption_loop_fatal_status:
  assumes "transport env (calls w) = Response r" and "url_ok env"
    and "StatusCode r \<noteq> 200" and "StatusCode r \<noteq> 429" and "StatusCode r < 500"
  shows "caption_loop env (Suc n) v w = (Inr (v\<lparr>resp := Some r, reqErr := None\<rparr>), called w)"
  using assms by simp

lemma processImage_fatal_status:
  assumes "transport env (calls w) = Response r" and "url_ok env"
    and "StatusCode r \<noteq> 200" and "StatusCode r \<noteq> 429" and "StatusCode r < 500"
    and "force \<or> txtPath p \<notin> dom (files w)" and "p \<in> dom (files w)" and "p \<notin> unreadable env"
  shows "processImage env p force ident w = (Some (StatusFailed (StatusCode r)), called w)"
proof -
  have "caption_loop env caption_maxRetries
          \<lparr>geminiResp = [], resp = None, reqErr = None, delay = 2 * Second\<rparr> w
        = (Inr \<lparr>geminiResp = [], resp = Some r, reqErr = None, delay = 2 * Second\<rparr>, called w)"
    using caption_loop_fatal_status [OF assms(1-5), of 2]
    by (simp add: caption_maxRetries_def numeral_3_eq_3)
  then show ?thesis
    using assms(3,6-8)
    by (auto simp: processImage_def caption_response_def extract_caption_def)
qed

text \<open>
  The variables with which the loop is left hold a caption only if the last call of the
  loop met a valid response, and then the candidates are those of that response: no
  earlier decoded payload survives into a success.
\<close>

lemma caption_loop_success:
  assumes "caption_loop env n v w = (Inr v', w')"
    and "empty_caption (geminiResp v)"
    and "\<not> empty_caption (geminiResp v')" and "reqErr v' = None"
    and "\<forall>r. resp v' = Some r \<longrightarrow> StatusCode r = 200"
  shows "calls w < calls w' \<and> valid_caption (transport env (calls w' - 1)) (geminiResp v')"
  using assms
proof (induction n arbitrary: v w)
  case 0
  then show ?case by simp
next
  case (Suc n)
  show ?case
  proof (cases "transport env (calls w)")
    case (NetworkError e)
    with Suc.prems
    have "caption_loop env n (v\<lparr>resp := None, reqErr := Some e, delay := delay v * 2\<rparr>)
            (sleep (delay v) (called w)) = (Inr v', w')"
      by (simp split: if_splits)
    from Suc.IH [OF this] Suc.prems(2-) show ?thesis by simp
  next
    case (Response r)
    show ?thesis
    proof (cases "StatusCode r = 429 \<or> StatusCode r \<ge> 500")
      case True
      with Response Suc.prems
      have "caption_loop env n (v\<lparr>resp := Some r, reqErr := None, delay := delay v * 2\<rparr>)
              (sleep (delay v) (called w)) = (Inr v', w')"
        by (simp split: if_splits)
      from Suc.IH [OF this] Suc.prems(2-) show ?thesis by simp
    next
      case False
      show ?thesis
      proof (cases "StatusCode r = 200")
        case n200: False
        with False Response Suc.prems show ?thesis by (auto split: if_splits)
      next
        case True
        show ?thesis
        proof (cases "Body r")
          case (Json raw payload)
          show ?thesis
          proof (cases "empty_caption (Candidates payload)")
            case e: True
            with Json True False Response Suc.prems
            have "caption_loop env n
                    (v\<lparr>geminiResp := Candidates payload, resp := Some r, reqErr := None,
                       delay := delay v * 2\<rparr>)
                    (sleep (delay v) (called w)) = (Inr v', w')"
              by (simp split: if_splits)
            from Suc.IH [OF this] e Suc.prems(3-) show ?thesis by simp
          next
            case ne: False
            with Json True False Response Suc.prems show ?thesis
              by (auto simp: valid_caption_def split: if_splits)
          qed
        qed (use True False Response Suc.prems in \<open>auto split: if_splits\<close>)
      qed
    qed
  qed
qed

text \<open>
  When each of the iterations meets an outcome after which the loop goes on, the loop
  makes one call and one sleep in each and ends with its iterations used up.
\<close>

lemma caption_loop_all_retryable:
  assumes "url_ok env"
    and "\<forall>k<n. caption_retryable (transport env (calls w + k))"
  shows "\<exists>v' w'. caption_loop env n v w = (Inr v', w') \<and> calls w' = calls w + n
            \<and> length (slept w') = length (slept w) + n"
  using assms(2)
proof (induction n arbitrary: v w)
  case 0
  then show ?case by simp
next
  case (Suc n)
  from Suc.prems have now: "caption_retryable (transport env (calls w + 0))" by blast
  have later: "\<forall>k<n. caption_retryable (transport env (calls (sleep d (called w)) + k))" for d
  proof (intro allI impI)
    fix k assume "k < n"
    then have "Suc k < Suc n" by simp
    with Suc.prems have "caption_retryable (transport env (calls w + Suc k))" by blast
    then show "caption_retryable (transport env (calls (sleep d (called w)) + k))" by simp
  qed
  have step: "\<exists>v' w'. caption_loop env n u (sleep (delay v) (called w)) = (Inr v', w')
            \<and> calls w' = calls w + Suc n \<and> length (slept w') = length (slept w) + Suc n" for u
    using Suc.IH [OF later [of "delay v"], where v = u] by (simp add: sleep_def called_def)
  show ?case
  proof (cases "transport env (calls w)")
    case (NetworkError e)
    with assms(1) step show ?thesis by simp
  next
    case (Response r)
    with now have "StatusCode r = 429 \<or> StatusCode r \<ge> 500 \<or>
          (StatusCode r = 200 \<and>
           (case Body r of Json raw payload \<Rightarrow> empty_caption (Candidates payload)
            | _ \<Rightarrow> False))"
      by (simp add: caption_retryable_def)
    with Response assms(1) step show ?thesis
      by (auto split: body.splits)
  qed
qed

text \<open>
  The sleeps of that loop start at two seconds and double each time; there is no cap and
  no jitter.
\<close>

lemma caption_loop_sleeps:
  assumes "url_ok env"
    and "\<forall>k<n. caption_retryable (transport env (calls w + k))"
  shows "slept (snd (caption_loop env n v w)) = slept w @ map (\<lambda>k. delay v * 2 ^ k) [0..<n]"
  using assms(2)
proof (induction n arbitrary: v w)
  case 0
  then show ?case by simp
next
  case (Suc n)
  from Suc.prems have now: "caption_retryable (transport env (calls w + 0))" by blast
  have later: "\<forall>k<n. caption_retryable (transport env (calls (sleep d (called w)) + k))" for d
  proof (intro allI impI)
    fix k assume "k < n"
    then have "Suc k < Suc n" by simp
    with Suc.prems have "caption_retryable (transport env (calls w + Suc k))" by blast
    then show "caption_retryable (transport env (calls (sleep d (called w)) + k))" by simp
  qed
  have step: "slept (snd (caption_loop env n u (sleep (delay v) (called w))))
      = slept w @ map (\<lambda>k. delay v * 2 ^ k) [0..<Suc n]" if "delay u = delay v * 2" for u
    using Suc.IH [OF later [of "delay v"], where v = u] that
    by (simp add: sleep_def called_def map_upt_Suc mult.assoc del: upt_Suc)
  show ?case
  proof (cases "transport env (calls w)")
    case (NetworkError e)
    with assms(1) step [of "v\<lparr>resp := None, reqErr := Some e, delay := delay v * 2\<rparr>"]
    show ?thesis by simp
  next
    case (Response r)
    with now have c: "StatusCode r = 429 \<or> StatusCode r \<ge> 500 \<or>
          (StatusCode r = 200 \<and>
           (case Body r of Json raw payload \<Rightarrow> empty_caption (Candidates payload)
            | _ \<Rightarrow> False))"
      by (simp add: caption_retryable_def)
    show ?thesis
    proof (cases "StatusCode r = 429 \<or> StatusCode r \<ge> 500")
      case True
      with Response assms(1)
        step [of "v\<lparr>resp := Some r, reqErr := None, delay := delay v * 2\<rparr>"]
      show ?thesis by simp
    next
      case False
      with c obtain raw payload where b: "StatusCode r = 200" "Body r = Json raw payload"
          "empty_caption (Candidates payload)"
        by (auto split: body.splits)
      with False Response assms(1)
        step [of "v\<lparr>geminiResp := Candidates payload, resp := Some r, reqErr := None,
                    delay := delay v * 2\<rparr>"]
      show ?thesis by simp
    qed
  qed
qed

section \<open>The claims on the retry loop\<close>

lemmas stub_defs = stub_env_def disk_def status_response_def json_response_def
  text_candidate_def image_dir_def audio_dir_def a_wav_def

lemmas backoff_defs = draw_backoff_def calculateBackoff_def baseBackoff_def maxBackoff_def
  Second_def Millisecond_def shift_left_def Let_def sleep_def called_def

lemmas name_defs = txtPath_def outputTxtPath_def Ext_def ToLower_def lower_char_def
  TrimSuffix_def HasSuffix_def getMimeType_def

lemmas trim_defs = TrimSpace_def cut_space_left_def cut_space_right_def space_encodings_def

text \<open>
  \<^verbatim>\<open>strings.TrimSpace\<close> on three strings: no white space at the ends, a single space, and
  a word between an ideographic space (U+3000) and a no-break space (U+00A0).
\<close>

lemma TrimSpace_red_hat: "TrimSpace ''red hat'' = ''red hat''"
  by (simp add: trim_defs)

lemma TrimSpace_blank: "TrimSpace '' '' = []"
  by (simp add: trim_defs)

lemma TrimSpace_unicode:
  "TrimSpace [CHR 0xE3, CHR 0x80, CHR 0x80, CHR ''h'', CHR ''i'', CHR 0xC2, CHR 0xA0] = ''hi''"
  by (simp add: trim_defs)

lemmas trim_values = TrimSpace_red_hat TrimSpace_blank

text \<open>
  Claim C2: if every attempt yields a retryable outcome, the call makes exactly
  \<open>maxRetries + 1\<close> HTTP calls and then returns a terminal error. \<^verbatim>\<open>getTranscript\<close> does
  (\<open>getTranscript_all_retryable\<close>). \<^verbatim>\<open>processImage\<close> runs \<^verbatim>\<open>for range maxRetries\<close>, which
  is \<open>maxRetries\<close> calls (\<open>caption_loop_all_retryable\<close>): against a transport that always
  answers 500 it returns the error of the last status after 3 calls, not 4.
\<close>

theorem processImage_always_500:
  "fst (processImage (stub_env (status_response 500)) (''d'', ''x.jpg'') False [] image_dir)
     = Some (StatusFailed 500)
   \<and> calls (snd (processImage (stub_env (status_response 500)) (''d'', ''x.jpg'') False []
        image_dir)) = 3
   \<and> caption_maxRetries + 1 = 4"
  by (simp add: processImage_def caption_response_def extract_caption_def caption_text_def WriteFile_def caption_maxRetries_def stub_defs
      backoff_defs name_defs numeral_3_eq_3)

theorem processImage_always_500_witness:
  "calls (snd (processImage (stub_env (status_response 500)) (''d'', ''x.jpg'') False []
      image_dir)) = 3"
  using processImage_always_500 by simp

text \<open>
  Claim C3: every response of status 429 or of a status in the 5xx range is a retryable
  failure. \<^verbatim>\<open>processImage\<close> retries them all (\<open>caption_loop_retry_status\<close>). \<^verbatim>\<open>getTranscript\<close>
  retries 429, 500, 502, 503 and 504 only: status 501 falls to the \<^verbatim>\<open>default\<close> branch, and
  the call returns the error of the non-retryable statuses after one call and no sleep.
\<close>

theorem getTranscript_status_501:
  "getTranscript (stub_env (status_response 501)) (disk [])
     = (Inl (NonRetryableStatus 501 []), \<lparr>calls = 1, draws = 0, slept = [], files = Map.empty\<rparr>)"
  by (simp add: getTranscript_def getTranscript_loop.simps maxRetries_def retryable_status_def
      stub_defs called_def)

theorem getTranscript_status_501_witness:
  "calls (snd (getTranscript (stub_env (status_response 501)) (disk []))) = 1"
  using getTranscript_status_501 by simp

text \<open>
  Claim C4: a response of status 200 whose payload has no candidates or no parts is a
  retryable failure. \<^verbatim>\<open>processImage\<close> retries it (\<open>caption_loop_retry_empty\<close>).
  \<^verbatim>\<open>getTranscript\<close> returns the error "no transcript content found" at once: one call, no
  sleep.
\<close>

theorem getTranscript_no_candidates:
  "getTranscript (stub_env (json_response [] None)) (disk [])
     = (Inl (NoTranscript []), \<lparr>calls = 1, draws = 0, slept = [], files = Map.empty\<rparr>)"
  by (simp add: getTranscript_def getTranscript_loop.simps maxRetries_def status_ok_def
      extract_transcript_def stub_defs called_def)

theorem getTranscript_no_candidates_witness:
  "calls (snd (getTranscript (stub_env (json_response [] None)) (disk []))) = 1"
  using getTranscript_no_candidates by simp

text \<open>
  Claim C5: a response that carries a block reason ends the call with a distinct fatal
  error that names the reason, without a retry. \<^verbatim>\<open>getTranscript\<close> does
  (\<open>getTranscript_blocked\<close>). The response struct of \<^verbatim>\<open>processImage\<close> has no prompt feedback:
  a blocked response without candidates is retried as an empty one, and after 3 calls the
  error is the one of an empty caption.
\<close>

theorem processImage_blocked:
  "fst (processImage (stub_env (json_response [] (Some \<lparr>BlockReason = ''SAFETY''\<rparr>)))
          (''d'', ''x.jpg'') False [] image_dir) = Some NoCaption
   \<and> calls (snd (processImage (stub_env (json_response [] (Some \<lparr>BlockReason = ''SAFETY''\<rparr>)))
          (''d'', ''x.jpg'') False [] image_dir)) = 3"
  by (simp add: processImage_def caption_response_def extract_caption_def caption_text_def WriteFile_def caption_maxRetries_def empty_caption_def
      stub_defs backoff_defs name_defs numeral_3_eq_3)

theorem processImage_blocked_witness:
  "fst (processImage (stub_env (json_response [] (Some \<lparr>BlockReason = ''SAFETY''\<rparr>)))
          (''d'', ''x.jpg'') False [] image_dir) \<noteq> None"
  using processImage_blocked by simp

text \<open>
  Claim C6: the call never returns a success whose text is the empty string.
  \<^verbatim>\<open>processImage\<close> tests the text against the empty string in the loop and after it.
  \<^verbatim>\<open>getTranscript\<close> tests for candidates and parts only: a first part with empty text is
  returned as a success, and the batch writes an empty transcript file.
\<close>

theorem getTranscript_empty_text:
  "getTranscript (stub_env (json_response [text_candidate []] None)) audio_dir
     = (Inr [], called audio_dir)
   \<and> stt_file (stub_env (json_response [text_candidate []] None)) ''d'' False a_wav (0, audio_dir)
     = (0, (called audio_dir)\<lparr>files := (files audio_dir)((''d'', ''a.txt'') \<mapsto> [])\<rparr>)"
  by (simp add: stt_file_def WriteFile_def getTranscript_def getTranscript_loop.simps
      maxRetries_def status_ok_def extract_transcript_def stub_defs called_def name_defs)

theorem getTranscript_empty_text_witness:
  "fst (getTranscript (stub_env (json_response [text_candidate []] None)) audio_dir) = Inr []"
  using getTranscript_empty_text by simp

text \<open>
  \<^verbatim>\<open>processImage\<close> trims the text after its emptiness test: a text of white space
  passes the test, and without an identity the caption file is written empty.
\<close>

lemma processImage_blank_text:
  "processImage (stub_env (json_response [text_candidate '' ''] None)) (''d'', ''x.jpg'') False []
      image_dir
     = (None, (called image_dir)\<lparr>files := (files image_dir)((''d'', ''x.txt'') \<mapsto> [])\<rparr>)"
  by (simp add: processImage_def caption_response_def extract_caption_def caption_text_def
      WriteFile_def caption_maxRetries_def empty_caption_def trim_values
      stub_defs called_def name_defs numeral_3_eq_3)

text \<open>
  For the stt command the statement of claim C7 holds at every attempt: a response whose
  status is not 200 and not one of the retryable statuses ends the loop with the error of
  the non-retryable statuses, without a sleep or a further call; after \<open>k\<close> attempts that
  were retried, the call has made \<open>k + 1\<close> calls.
\<close>

lemma getTranscript_loop_fatal_status:
  assumes "attempt \<le> maxRetries" and "url_ok env"
    and "transport env (calls w) = Response r"
    and "StatusCode r \<noteq> 200" and "\<not> retryable_status (StatusCode r)"
  shows "getTranscript_loop env attempt lastErr w
           = (Inl (NonRetryableStatus (StatusCode r) (raw_body (Body r))), called w)"
  using assms by (subst getTranscript_loop.simps) simp

lemma getTranscript_loop_fatal_after:
  assumes "url_ok env"
    and "attempt + k \<le> maxRetries"
    and "\<forall>i<k. recorded_failure (transport env (calls w + i)) \<noteq> None"
    and "transport env (calls w + k) = Response r"
    and "StatusCode r \<noteq> 200" and "\<not> retryable_status (StatusCode r)"
  shows "\<exists>w'. getTranscript_loop env attempt lastErr w
                 = (Inl (NonRetryableStatus (StatusCode r) (raw_body (Body r))), w')
              \<and> calls w' = calls w + k + 1 \<and> length (slept w') = length (slept w) + k
              \<and> files w' = files w"
  using assms(2-4)
proof (induction k arbitrary: attempt lastErr w)
  case 0
  then have "attempt \<le> maxRetries" "transport env (calls w) = Response r" by simp_all
  from getTranscript_loop_fatal_status [OF this(1) assms(1) this(2) assms(5,6)]
  show ?case by (simp add: called_def)
next
  case (Suc k)
  then have le: "attempt \<le> maxRetries" by simp
  from Suc.prems(2) have "recorded_failure (transport env (calls w + 0)) \<noteq> None" by blast
  then obtain e where e: "recorded_failure (transport env (calls w)) = Some e" by auto
  obtain w1 where w1:
      "getTranscript_loop env attempt lastErr w = getTranscript_loop env (Suc attempt) (Some e) w1"
      "calls w1 = Suc (calls w)" "files w1 = files w"
      "length (slept w1) = Suc (length (slept w))"
    using getTranscript_loop_retry [OF le assms(1) e] by blast
  have a: "Suc attempt + k \<le> maxRetries" using Suc.prems(1) by simp
  have r: "\<forall>i<k. recorded_failure (transport env (calls w1 + i)) \<noteq> None"
  proof (intro allI impI)
    fix i assume "i < k"
    then have "Suc i < Suc k" by simp
    with Suc.prems(2) have "recorded_failure (transport env (calls w + Suc i)) \<noteq> None" by blast
    then show "recorded_failure (transport env (calls w1 + i)) \<noteq> None" by (simp add: w1(2))
  qed
  have t: "transport env (calls w1 + k) = Response r" using Suc.prems(3) by (simp add: w1(2))
  from Suc.IH [OF a r t, of "Some e"] w1 show ?case by auto
qed

lemma getTranscript_fatal_after:
  assumes "url_ok env" and "k \<le> maxRetries"
    and "\<forall>i<k. recorded_failure (transport env (calls w + i)) \<noteq> None"
    and "transport env (calls w + k) = Response r"
    and "StatusCode r \<noteq> 200" and "\<not> retryable_status (StatusCode r)"
  shows "\<exists>w'. getTranscript env w
                 = (Inl (NonRetryableStatus (StatusCode r) (raw_body (Body r))), w')
              \<and> calls w' = calls w + k + 1 \<and> length (slept w') = length (slept w) + k
              \<and> files w' = files w"
  using getTranscript_loop_fatal_after [OF assms(1), of 0 k w r None] assms(2-)
  by (simp add: getTranscript_def)

text \<open>
  For the caption command it holds for the statuses below 500: such a response, other
  than 200 and 429, ends the loop without a sleep or a further call, and the error after
  the loop carries the status.
\<close>

lemma caption_loop_step:
  assumes "url_ok env" and "caption_retryable (transport env (calls w))"
  shows "\<exists>u. caption_loop env (Suc n) v w = caption_loop env n u (sleep (delay v) (called w))"
proof (cases "transport env (calls w)")
  case (NetworkError e)
  with assms(1) show ?thesis by auto
next
  case (Response r)
  with assms(2) have "StatusCode r = 429 \<or> StatusCode r \<ge> 500 \<or>
        (StatusCode r = 200 \<and>
         (case Body r of Json raw payload \<Rightarrow> empty_caption (Candidates payload)
          | _ \<Rightarrow> False))"
    by (simp add: caption_retryable_def)
  with Response assms(1) show ?thesis
    by (cases "StatusCode r = 429 \<or> StatusCode r \<ge> 500") (auto split: body.splits)
qed

lemma caption_loop_fatal_after:
  assumes "url_ok env"
    and "k < n"
    and "\<forall>i<k. caption_retryable (transport env (calls w + i))"
    and "transport env (calls w + k) = Response r"
    and "StatusCode r \<noteq> 200" and "StatusCode r \<noteq> 429" and "StatusCode r < 500"
  shows "\<exists>v' w'. caption_loop env n v w = (Inr v', w') \<and> resp v' = Some r \<and> reqErr v' = None
              \<and> calls w' = calls w + k + 1 \<and> length (slept w') = length (slept w) + k
              \<and> files w' = files w"
  using assms(2-4)
proof (induction k arbitrary: n v w)
  case 0
  then obtain m where n: "n = Suc m" by (cases n) auto
  from 0 have "transport env (calls w) = Response r" by simp
  from caption_loop_fatal_status [OF this assms(1,5-7), of m v] show ?case
    by (simp add: n called_def del: caption_loop.simps)
next
  case (Suc k)
  then obtain m where n: "n = Suc m" and km: "k < m" by (cases n) auto
  from Suc.prems(2) have "caption_retryable (transport env (calls w + 0))" by blast
  then have "caption_retryable (transport env (calls w))" by simp
  from caption_loop_step [OF assms(1) this, of m v]
  obtain u where u: "caption_loop env (Suc m) v w = caption_loop env m u (sleep (delay v) (called w))"
    by blast
  let ?w1 = "sleep (delay v) (called w)"
  have r: "\<forall>i<k. caption_retryable (transport env (calls ?w1 + i))"
  proof (intro allI impI)
    fix i assume "i < k"
    then have "Suc i < Suc k" by simp
    with Suc.prems(2) have "caption_retryable (transport env (calls w + Suc i))" by blast
    then show "caption_retryable (transport env (calls ?w1 + i))" by simp
  qed
  have t: "transport env (calls ?w1 + k) = Response r" using Suc.prems(3) by simp
  from Suc.IH [OF km r t, of u] u n show ?case
    by (auto simp: sleep_def called_def)
qed

lemma caption_response_fatal_after:
  assumes "url_ok env"
    and "k < caption_maxRetries"
    and "\<forall>i<k. caption_retryable (transport env (calls w + i))"
    and "transport env (calls w + k) = Response r"
    and "StatusCode r \<noteq> 200" and "StatusCode r \<noteq> 429" and "StatusCode r < 500"
  shows "\<exists>w'. caption_response env w = (Inl (StatusFailed (StatusCode r)), w')
              \<and> calls w' = calls w + k + 1 \<and> length (slept w') = length (slept w) + k
              \<and> files w' = files w"
proof -
  from caption_loop_fatal_after [OF assms, of "\<lparr>geminiResp = [], resp = None, reqErr = None,
      delay = 2 * Second\<rparr>"]
  obtain v' w' where l: "caption_loop env caption_maxRetries
        \<lparr>geminiResp = [], resp = None, reqErr = None, delay = 2 * Second\<rparr> w = (Inr v', w')"
      "resp v' = Some r" "reqErr v' = None" "calls w' = calls w + k + 1"
      "length (slept w') = length (slept w) + k" "files w' = files w"
    by blast
  have "extract_caption v' = Inl (StatusFailed (StatusCode r))"
    using l(2,3) assms(5) by (simp add: extract_caption_def)
  with l show ?thesis by (simp add: caption_response_def)
qed



section \<open>Properties of the batches\<close>

lemma WriteFile_effect:
  assumes "WriteFile env name data w = (ok, w')"
  shows "calls w' = calls w \<and> dom (files w) \<subseteq> dom (files w')
       \<and> (ok \<longrightarrow> files w' = (files w)(name \<mapsto> data))
       \<and> (files w' = files w \<or> (\<exists>c. files w' = (files w)(name \<mapsto> c)))"
  using assms by (auto simp: WriteFile_def split: write_outcome.splits)

lemma caption_response_files:
  assumes "caption_response env w = (res, w1)"
  shows "files w1 = files w"
  using assms
    caption_loop_files [of env caption_maxRetries
      "\<lparr>geminiResp = [], resp = None, reqErr = None, delay = 2 * Second\<rparr>" w]
  by (auto simp: caption_response_def split: prod.splits sum.splits)

lemma caption_text_Inr: "caption_text cs = Inr t \<Longrightarrow> t \<noteq> [] \<and> \<not> empty_caption cs"
  by (auto simp: caption_text_def empty_caption_def split: list.splits if_splits)

text \<open>
  For the caption command the statement of claim C6 holds of the text that the call
  hands on: it is not empty, and it is the text of the response that the last call of the
  loop received.
\<close>

lemma caption_response_success:
  assumes "caption_response env w = (Inr t, w1)"
  shows "t \<noteq> [] \<and> calls w < calls w1
       \<and> (\<exists>cs. valid_caption (transport env (calls w1 - 1)) cs \<and> caption_text cs = Inr t)"
proof -
  let ?v0 = "\<lparr>geminiResp = [], resp = None, reqErr = None, delay = 2 * Second\<rparr>"
  from assms obtain v where l: "caption_loop env caption_maxRetries ?v0 w = (Inr v, w1)"
    and x: "extract_caption v = Inr t"
    by (auto simp: caption_response_def split: prod.splits sum.splits)
  from x have r: "reqErr v = None" and st: "\<forall>r. resp v = Some r \<longrightarrow> StatusCode r = 200"
    and ct: "caption_text (geminiResp v) = Inr t"
    by (auto simp: extract_caption_def split: option.splits if_splits)
  from caption_text_Inr [OF ct] have t: "t \<noteq> []" and ne: "\<not> empty_caption (geminiResp v)"
    by simp_all
  have "empty_caption (geminiResp ?v0)" by (simp add: empty_caption_def)
  from caption_loop_success [OF l this ne r st] ct t show ?thesis by blast
qed

text \<open>
  What \<^verbatim>\<open>processImage\<close> does to the files: nothing, unless the call handed on a caption;
  then it writes to the caption file and to nothing else. When it returns \<^verbatim>\<open>nil\<close> the
  caption file exists.
\<close>

lemma processImage_files:
  assumes "processImage env p force ident w = (res, w')"
  shows "(files w' \<noteq> files w \<longrightarrow>
            (\<exists>t. fst (caption_response env w) = Inr t)
            \<and> (\<exists>c. files w' = (files w)(txtPath p \<mapsto> c)))
       \<and> dom (files w) \<subseteq> dom (files w')
       \<and> (res = None \<longrightarrow> txtPath p \<in> dom (files w'))"
proof (cases "\<not> force \<and> txtPath p \<in> dom (files w)")
  case True
  with assms show ?thesis by (auto simp: processImage_def)
next
  case nskip: False
  show ?thesis
  proof (cases "p \<notin> dom (files w) \<or> p \<in> unreadable env")
    case True
    with assms nskip show ?thesis by (auto simp: processImage_def)
  next
    case False
    obtain cr w1 where c: "caption_response env w = (cr, w1)"
      by (cases "caption_response env w") auto
    have f1: "files w1 = files w" using c by (rule caption_response_files)
    show ?thesis
    proof (cases cr)
      case (Inl e)
      with assms nskip False c f1 show ?thesis by (auto simp: processImage_def)
    next
      case (Inr t)
      let ?final = "if ident \<noteq> [] then ident @ '', '' @ TrimSpace t else TrimSpace t"
      obtain ok w2 where wr: "WriteFile env (txtPath p) ?final w1 = (ok, w2)"
        by (cases "WriteFile env (txtPath p) ?final w1") auto
      with assms nskip False c Inr have res: "w' = w2" "res = None \<longleftrightarrow> ok"
        by (auto simp: processImage_def Let_def split: if_splits bool.splits)
      from WriteFile_effect [OF wr] f1 res c Inr show ?thesis by auto
    qed
  qed
qed



text \<open>
  What the body of the stt loop does to the files: nothing, unless \<^verbatim>\<open>getTranscript\<close>
  returned a transcript; then it writes to the transcript file and to nothing else. When
  it counts no error for an audio file, the transcript file exists.
\<close>

lemma stt_file_audio:
  assumes "\<not> IsDir entry" and "getMimeType (ToLower (Ext (Name entry))) \<noteq> []"
  shows "stt_file env dir force entry (n, w) =
     (if \<not> force \<and> outputTxtPath dir (Name entry) \<in> dom (files w) then (n, w)
      else if (dir, Name entry) \<notin> dom (files w) \<or> (dir, Name entry) \<in> unreadable env
        then (Suc n, w)
      else
        (case getTranscript env w of
           (Inl e, w1) \<Rightarrow> (Suc n, w1)
         | (Inr transcript, w1) \<Rightarrow>
             (case WriteFile env (outputTxtPath dir (Name entry)) transcript w1 of
                (True, w2) \<Rightarrow> (n, w2)
              | (False, w2) \<Rightarrow> (Suc n, w2))))"
  using assms by (simp add: stt_file_def Let_def)

lemma stt_file_other:
  assumes "IsDir entry \<or> getMimeType (ToLower (Ext (Name entry))) = []"
  shows "stt_file env dir force entry (n, w) = (n, w)"
  using assms by (auto simp: stt_file_def Let_def)

lemma stt_file_files:
  assumes "stt_file env dir force entry (n, w) = (n', w')"
  shows "(files w' \<noteq> files w \<longrightarrow>
            (\<exists>t. fst (getTranscript env w) = Inr t)
            \<and> (\<exists>c. files w' = (files w)(outputTxtPath dir (Name entry) \<mapsto> c)))
       \<and> n \<le> n' \<and> dom (files w) \<subseteq> dom (files w')
       \<and> (n' = n \<longrightarrow> \<not> IsDir entry \<longrightarrow> getMimeType (ToLower (Ext (Name entry))) \<noteq> []
            \<longrightarrow> outputTxtPath dir (Name entry) \<in> dom (files w'))"
proof (cases "IsDir entry \<or> getMimeType (ToLower (Ext (Name entry))) = []")
  case True
  from assms stt_file_other [OF True, of env dir force n w] have "n' = n" "w' = w" by simp_all
  with True show ?thesis by auto
next
  case False
  then have a: "\<not> IsDir entry" "getMimeType (ToLower (Ext (Name entry))) \<noteq> []" by simp_all
  note eq = stt_file_audio [OF a, of env dir force n w]
  let ?out = "outputTxtPath dir (Name entry)"
  show ?thesis
  proof (cases "\<not> force \<and> ?out \<in> dom (files w)")
    case True
    with assms eq have "n' = n" "w' = w" by simp_all
    with True show ?thesis by simp
  next
    case nskip: False
    show ?thesis
    proof (cases "(dir, Name entry) \<notin> dom (files w) \<or> (dir, Name entry) \<in> unreadable env")
      case True
      with assms eq nskip have "n' = Suc n" "w' = w" by simp_all
      then show ?thesis by simp
    next
      case readable: False
      obtain gr w1 where g: "getTranscript env w = (gr, w1)"
        by (cases "getTranscript env w") auto
      have f1: "files w1 = files w" using g by (rule getTranscript_files)
      show ?thesis
      proof (cases gr)
        case (Inl e)
        with assms eq nskip readable g have "n' = Suc n" "w' = w1" by simp_all
        with f1 show ?thesis by simp
      next
        case (Inr t)
        obtain ok w2 where wr: "WriteFile env ?out t w1 = (ok, w2)"
          by (cases "WriteFile env ?out t w1") auto
        from assms eq nskip readable g Inr wr
        have r: "w' = w2" "n' = (if ok then n else Suc n)"
          by (simp_all split: bool.splits)
        from WriteFile_effect [OF wr] f1
        have e: "dom (files w) \<subseteq> dom (files w2)" "ok \<longrightarrow> ?out \<in> dom (files w2)"
            "files w2 = files w \<or> (\<exists>c. files w2 = (files w)(?out \<mapsto> c))"
          by auto
        have "fst (getTranscript env w) = Inr t" using g Inr by simp
        with e r show ?thesis by auto
      qed
    qed
  qed
qed










section \<open>The claims on the batches\<close>

lemmas batch_defs = stt_def stt_files_def stt_file_def caption_def caption_files_def
  caption_file_def processImage_def caption_response_def extract_caption_def caption_text_def
  WriteFile_def isImageFile_def empty_caption_def status_ok_def extract_transcript_def
  trim_values






lemma ToLower_WAV: "ToLower ''.WAV'' = ''.wav''"
  by code_simp

lemma outputTxtPath_upper: "outputTxtPath ''d'' ''A.WAV'' = (''d'', ''A.WAV.txt'')"
proof -
  have "Ext ''A.WAV'' = ''.WAV''" by (simp add: Ext_def)
  then show ?thesis
    by (simp add: outputTxtPath_def ToLower_WAV TrimSuffix_def HasSuffix_def)
qed

lemma stt_upper_case_extension:
  "sibling_txt (''d'', ''A.WAV'') = (''d'', ''A.txt'')
   \<and> (''d'', ''A.txt'') \<in> dom (files upper_dir)
   \<and> stt_file hello_env ''d'' False upper_wav (0, upper_dir)
     = (0, (called upper_dir)\<lparr>files := (files upper_dir)((''d'', ''A.WAV.txt'') \<mapsto> ''hello'')\<rparr>)"
proof -
  have e: "Ext ''A.WAV'' = ''.WAV''" by (simp add: Ext_def)
  have a: "sibling_txt (''d'', ''A.WAV'') = (''d'', ''A.txt'')"
    by (simp add: sibling_txt_def e TrimSuffix_def HasSuffix_def)
  have b: "(''d'', ''A.txt'') \<in> dom (files upper_dir)"
    by (simp add: upper_dir_def disk_def)
  have "stt_file hello_env ''d'' False upper_wav (0, upper_dir)
     = (0, (called upper_dir)\<lparr>files := (files upper_dir)((''d'', ''A.WAV.txt'') \<mapsto> ''hello'')\<rparr>)"
    by (simp add: stt_file_def upper_wav_def e ToLower_WAV getMimeType_def outputTxtPath_upper
        WriteFile_def getTranscript_def getTranscript_loop.simps maxRetries_def status_ok_def
        extract_transcript_def hello_env_def stub_defs upper_dir_def called_def)
  with a b show ?thesis by simp
qed



text \<open>
  Both commands write only after their call returned without an error. For stt: when
  \<^verbatim>\<open>getTranscript\<close> returns an error the files stay as they were, and a change of the
  files is a write to the transcript file of the item after \<^verbatim>\<open>getTranscript\<close> returned a
  transcript. For caption: when the call with its retries ends in an error the files stay
  as they were, and a change of the files is a write to the caption file of the item after
  the call handed on a caption, which is not empty and which the last call of the loop
  received in a valid response.
\<close>

lemma files_change_only_after_call:
  "(fst (getTranscript env w) = Inl e
      \<longrightarrow> files (snd (stt_file env dir force entry (n, w))) = files w)
   \<and> (files (snd (stt_file env dir force entry (n, w))) \<noteq> files w
      \<longrightarrow> (\<exists>t. fst (getTranscript env w) = Inr t)
          \<and> (\<exists>c. files (snd (stt_file env dir force entry (n, w)))
                  = (files w)(outputTxtPath dir (Name entry) \<mapsto> c)))
   \<and> (fst (caption_response env w) = Inl e'
      \<longrightarrow> files (snd (processImage env p force ident w)) = files w)
   \<and> (files (snd (processImage env p force ident w)) \<noteq> files w
      \<longrightarrow> (\<exists>t cs. fst (caption_response env w) = Inr t \<and> t \<noteq> []
                \<and> valid_caption (transport env (calls (snd (caption_response env w)) - 1)) cs
                \<and> caption_text cs = Inr t)
          \<and> (\<exists>c. files (snd (processImage env p force ident w)) = (files w)(txtPath p \<mapsto> c)))"
proof -
  obtain n' w' where s: "stt_file env dir force entry (n, w) = (n', w')"
    by (cases "stt_file env dir force entry (n, w)") auto
  obtain res w'' where c: "processImage env p force ident w = (res, w'')"
    by (cases "processImage env p force ident w") auto
  obtain cr w1 where r: "caption_response env w = (cr, w1)"
    by (cases "caption_response env w") auto
  have "cr = Inr t \<longrightarrow> t \<noteq> [] \<and>
      (\<exists>cs. valid_caption (transport env (calls w1 - 1)) cs \<and> caption_text cs = Inr t)" for t
    using caption_response_success [of env w t w1] r by blast
  with stt_file_files [OF s] processImage_files [OF c] show ?thesis
    by (auto simp: s c r)
qed

text \<open>
  Claim C9: for every item the \<^verbatim>\<open>.txt\<close> file is written only after the remote call
  produced a success, and a failed attempt leaves no artifact, truncated, empty or
  placeholder. A response of status 200 whose first part has empty text is not a success:
  the specification counts a payload without the text as a failed attempt, and
  \<^verbatim>\<open>processImage\<close> retries it and writes nothing. \<^verbatim>\<open>getTranscript\<close> returns it as a
  transcript: against a transport that always answers so, the stt command makes one call,
  creates an empty \<^verbatim>\<open>a.txt\<close> that was not there, and reports no error.
\<close>

theorem stt_empty_artifact:
  "files audio_dir (''d'', ''a.txt'') = None
   \<and> stt empty_text_env ''key'' ''d'' False (Some [a_wav]) audio_dir
     = (None, (called audio_dir)\<lparr>files := (files audio_dir)((''d'', ''a.txt'') \<mapsto> [])\<rparr>)
   \<and> processImage empty_text_env (''d'', ''x.jpg'') False [] image_dir
     = (Some NoCaption,
        \<lparr>calls = 3, draws = 0, slept = [2000000000, 4000000000, 8000000000],
         files = files image_dir\<rparr>)"
  by (simp add: empty_text_env_def batch_defs getTranscript_def getTranscript_loop.simps
      maxRetries_def caption_maxRetries_def stub_defs backoff_defs name_defs numeral_3_eq_3)

theorem stt_empty_artifact_witness:
  "files (snd (stt empty_text_env ''key'' ''d'' False (Some [a_wav]) audio_dir)) (''d'', ''a.txt'')
     = Some []"
  using stt_empty_artifact by simp

end
